theory Spec2Isabelle
  imports Complex_Main "HOL-Library.Word"
begin

unbundle bit_operations_syntax

section \<open>The Bing Maps tile system of \<open>bingtiles.py\<close>\<close>

text \<open>
  The class \<open>TileSystem\<close> has no instance state: its methods are pure functions of their
  arguments and of five class constants. Python's unbounded integers are \<open>int\<close>; Python's
  floats are idealised as \<open>real\<close> (no rounding and no NaN); a string is a \<open>string\<close>; a
  raised exception is the \<open>Inl\<close> branch of a sum. Where a float meets the integer map size in
  a product or a quotient, Python first converts the integer to a float, and that conversion
  raises \<open>OverflowError\<close> beyond the float range: \<open>float_of_int\<close> models it.
\<close>

subsection \<open>Exceptions and built-ins\<close>

datatype error =
  ValueError string | IndexError string | ZeroDivisionError string | OverflowError string

text \<open>\<open>str(n)\<close> on an integer: its decimal numeral, with a minus sign when negative.\<close>

definition digit_char :: "nat \<Rightarrow> char" where
  "digit_char d = ''0123456789'' ! d"

function str_nat :: "nat \<Rightarrow> string" where
  "str_nat n = (if n < 10 then [digit_char n] else str_nat (n div 10) @ [digit_char (n mod 10)])"
  by pat_completeness auto
termination
  by (relation "measure (\<lambda>n. n)") auto

definition str :: "int \<Rightarrow> string" where
  "str k = (if k < 0 then CHR ''-'' # str_nat (nat (- k)) else str_nat (nat k))"

text \<open>\<open>s[k]\<close> on a string: a negative index counts from the end, and an index out of
  range raises \<open>IndexError\<close>.\<close>

definition getitem :: "string \<Rightarrow> int \<Rightarrow> error + char" where
  "getitem s k =
     (let n = int (length s); j = (if k < 0 then n + k else k)
      in if 0 \<le> j \<and> j < n then Inr (s ! nat j)
         else Inl (IndexError ''string index out of range''))"

text \<open>\<open>a << b\<close> on integers raises \<open>ValueError\<close> on a negative shift count.\<close>

definition lshift :: "int \<Rightarrow> int \<Rightarrow> error + int" where
  "lshift a b = (if b < 0 then Inl (ValueError ''negative shift count'')
                 else Inr (push_bit (nat b) a))"

text \<open>\<open>a / b\<close> on floats raises \<open>ZeroDivisionError\<close> on a zero divisor, and \<open>math.log\<close>
  raises \<open>ValueError\<close> outside the positive numbers.\<close>

definition truediv :: "real \<Rightarrow> real \<Rightarrow> error + real" where
  "truediv a b = (if b = 0 then Inl (ZeroDivisionError ''float division by zero'')
                  else Inr (a / b))"

definition math_log :: "real \<Rightarrow> error + real" where
  "math_log x = (if x \<le> 0 then Inl (ValueError ''math domain error'') else Inr (ln x))"

text \<open>The conversion of an integer operand to a float, in \<open>x * n\<close> and \<open>x / n\<close> with a float
  \<open>x\<close>: it rounds to the nearest float (ties to even) and raises \<open>OverflowError\<close> when the
  result is beyond the largest float \<open>2 ^ 1024 - 2 ^ 971\<close>, that is from \<open>2 ^ 1024 - 2 ^ 970\<close> on.
  The rounding is idealised away; a power of two below the bound, as every map size is,
  converts exactly.\<close>

definition float_of_int :: "int \<Rightarrow> error + real" where
  "float_of_int n =
     (if 2 ^ 1024 - 2 ^ 970 \<le> \<bar>n\<bar> then Inl (OverflowError ''int too large to convert to float'')
      else Inr (real_of_int n))"

subsection \<open>Class constants\<close>

definition EARTH_RADIUS :: int where "EARTH_RADIUS = 6378137"
definition MIN_LATITUDE :: real where "MIN_LATITUDE = - 85.05112878"
definition MAX_LATITUDE :: real where "MAX_LATITUDE = 85.05112878"
definition MIN_LONGITUDE :: int where "MIN_LONGITUDE = - 180"
definition MAX_LONGITUDE :: int where "MAX_LONGITUDE = 180"

subsection \<open>Clipping and map size\<close>

text \<open>\<open>min(max(n, min_value), max_value)\<close>, on any linearly ordered numbers.\<close>

definition clip :: "'a::linorder \<Rightarrow> 'a \<Rightarrow> 'a \<Rightarrow> 'a" where
  "clip n min_value max_value = min (max n min_value) max_value"

definition map_size :: "int \<Rightarrow> error + int" where
  "map_size level_of_detail = lshift 256 level_of_detail"

definition ground_resolution :: "real \<Rightarrow> int \<Rightarrow> error + real" where
  "ground_resolution latitude level_of_detail =
     (let latitude = clip latitude MIN_LATITUDE MAX_LATITUDE in
      case map_size level_of_detail of
        Inl e \<Rightarrow> Inl e
      | Inr msize \<Rightarrow>
          (case float_of_int msize of
             Inl e \<Rightarrow> Inl e
           | Inr fsize \<Rightarrow>
               truediv (cos (latitude * pi / 180) * 2 * pi * real_of_int EARTH_RADIUS) fsize))"

definition map_scale :: "real \<Rightarrow> int \<Rightarrow> real \<Rightarrow> error + real" where
  "map_scale latitude level_of_detail screen_dpi =
     (case ground_resolution latitude level_of_detail of
        Inl e \<Rightarrow> Inl e
      | Inr r \<Rightarrow> Inr (r * screen_dpi / 0.0254))"

subsection \<open>Latitude and longitude to pixels and back\<close>

text \<open>In \<open>latlong_to_pixel_xy\<close> the products \<open>x * map_size\<close> and \<open>y * map_size\<close> have a float on
  the left, so that \<open>map_size\<close> is converted (\<open>fsize\<close>); the bound \<open>map_size - 1\<close> of the clip
  stays an integer, which Python compares with a float exactly.\<close>

definition latlong_to_pixel_xy :: "real \<Rightarrow> real \<Rightarrow> int \<Rightarrow> error + real \<times> real" where
  "latlong_to_pixel_xy latitude longitude level_of_detail =
     (let latitude = clip latitude MIN_LATITUDE MAX_LATITUDE;
          longitude = clip longitude (real_of_int MIN_LONGITUDE) (real_of_int MAX_LONGITUDE);
          x = (longitude + 180) / 360;
          sinLatitude = sin (latitude * pi / 180)
      in case truediv (1 + sinLatitude) (1 - sinLatitude) of
           Inl e \<Rightarrow> Inl e
         | Inr ratio \<Rightarrow>
             (case math_log ratio of
                Inl e \<Rightarrow> Inl e
              | Inr l \<Rightarrow>
                  let y = 0.5 - l / (4 * pi) in
                  (case map_size level_of_detail of
                     Inl e \<Rightarrow> Inl e
                   | Inr msize \<Rightarrow>
                       (case float_of_int msize of
                          Inl e \<Rightarrow> Inl e
                        | Inr fsize \<Rightarrow>
                            let pixel_x = clip (x * fsize + 0.5) 0 (real_of_int msize - 1);
                                pixel_y = clip (y * fsize + 0.5) 0 (real_of_int msize - 1)
                            in Inr (pixel_x, pixel_y)))))"

text \<open>In \<open>pixel_xy_to_latlong\<close> the dividend of \<open>clip(pixel_x, 0, map_size - 1) / map_size\<close> is
  what \<open>clip\<close> returns: the pixel coordinate or an integer bound. With the integer coordinates
  of the docstring it is a quotient of two integers, which converts neither; the quotient is
  taken exactly. (With a float coordinate Python converts \<open>map_size\<close> here too, and raises from
  level 1016 on; \<open>latlong_to_pixel_xy\<close> raises there first, so that its results never meet
  this.)\<close>

definition pixel_xy_to_latlong :: "real \<Rightarrow> real \<Rightarrow> int \<Rightarrow> error + real \<times> real" where
  "pixel_xy_to_latlong pixel_x pixel_y level_of_detail =
     (case map_size level_of_detail of
        Inl e \<Rightarrow> Inl e
      | Inr msize \<Rightarrow>
          let x = clip pixel_x 0 (real_of_int msize - 1) / real_of_int msize - 0.5;
              y = 0.5 - clip pixel_y 0 (real_of_int msize - 1) / real_of_int msize;
              latitude = 90 - 360 * arctan (exp (- y * 2 * pi)) / pi;
              longitude = 360 * x
          in Inr (latitude, longitude))"

subsection \<open>Tiles and pixels\<close>

text \<open>\<open>/\<close> is Python 3's true division: on integers it yields a float, here the exact
  quotient.\<close>

definition pixel_xy_to_tile_xy :: "int \<Rightarrow> int \<Rightarrow> real \<times> real" where
  "pixel_xy_to_tile_xy pixel_x pixel_y =
     (let tile_x = real_of_int pixel_x / 256;
          tile_y = real_of_int pixel_y / 256
      in (tile_x, tile_y))"

definition tile_xy_to_pixel_xy :: "int \<Rightarrow> int \<Rightarrow> int \<times> int" where
  "tile_xy_to_pixel_xy tile_x tile_y =
     (let pixel_x = tile_x * 256;
          pixel_y = tile_y * 256
      in (pixel_x, pixel_y))"

subsection \<open>Quadkeys\<close>

text \<open>The body of \<open>for i in range(level_of_detail, 0, -1)\<close> in \<open>tile_xy_to_quadkey\<close>,
  from the current \<open>i\<close> on; the loop ends when \<open>i\<close> reaches 0, and does not run at all
  for a level of detail below 1. Inside the loop \<open>i - 1\<close> is not negative, so that
  \<open>1 << (i - 1)\<close> never raises.\<close>

function tile_xy_to_quadkey_loop :: "int \<Rightarrow> int \<Rightarrow> int \<Rightarrow> string \<Rightarrow> string" where
  "tile_xy_to_quadkey_loop tile_x tile_y i quadkey =
     (if i \<le> 0 then quadkey
      else
        let digit = (0::int);
            mask = push_bit (nat (i - 1)) (1::int);
            digit = (if tile_x AND mask \<noteq> 0 then digit + 1 else digit);
            digit = (if tile_y AND mask \<noteq> 0 then digit + 2 else digit)
        in tile_xy_to_quadkey_loop tile_x tile_y (i - 1) (quadkey @ str digit))"
  by pat_completeness auto
termination
  by (relation "measure (\<lambda>(tile_x, tile_y, i, quadkey). nat i)") auto

definition tile_xy_to_quadkey :: "int \<Rightarrow> int \<Rightarrow> int \<Rightarrow> string" where
  "tile_xy_to_quadkey tile_x tile_y level_of_detail =
     tile_xy_to_quadkey_loop tile_x tile_y level_of_detail []"

text \<open>The loop of \<open>quadkey_to_tile_xy\<close>, on the pair \<open>(tile_x, tile_y)\<close> it updates.\<close>

function quadkey_to_tile_xy_loop ::
  "string \<Rightarrow> int \<Rightarrow> int \<Rightarrow> int \<times> int \<Rightarrow> error + int \<times> int" where
  "quadkey_to_tile_xy_loop quadkey level_of_detail i (tile_x, tile_y) =
     (if i \<le> 0 then Inr (tile_x, tile_y)
      else
        let mask = push_bit (nat (i - 1)) (1::int) in
        case getitem quadkey (level_of_detail - i) of
          Inl e \<Rightarrow> Inl e
        | Inr c \<Rightarrow>
            if c = CHR ''0'' then
              quadkey_to_tile_xy_loop quadkey level_of_detail (i - 1) (tile_x, tile_y)
            else if c = CHR ''1'' then
              quadkey_to_tile_xy_loop quadkey level_of_detail (i - 1) (tile_x OR mask, tile_y)
            else if c = CHR ''2'' then
              quadkey_to_tile_xy_loop quadkey level_of_detail (i - 1) (tile_x, tile_y OR mask)
            else if c = CHR ''3'' then
              quadkey_to_tile_xy_loop quadkey level_of_detail (i - 1)
                (tile_x OR mask, tile_y OR mask)
            else Inl (ValueError ''Invalid QuadKey digit sequence.''))"
  by pat_completeness auto
termination
  by (relation "measure (\<lambda>(quadkey, level_of_detail, i, t). nat i)") auto

definition quadkey_to_tile_xy :: "string \<Rightarrow> error + int \<times> int \<times> int" where
  "quadkey_to_tile_xy quadkey =
     (let level_of_detail = int (length quadkey) in
      case quadkey_to_tile_xy_loop quadkey level_of_detail level_of_detail (0, 0) of
        Inl e \<Rightarrow> Inl e
      | Inr (tile_x, tile_y) \<Rightarrow> Inr (tile_x, tile_y, level_of_detail))"

subsection \<open>Notions used to state and prove the properties\<close>

text \<open>The digit that \<open>tile_xy_to_quadkey\<close> writes for bit \<open>k\<close> of the two tile coordinates.\<close>

definition quad_digit :: "int \<Rightarrow> int \<Rightarrow> nat \<Rightarrow> int" where
  "quad_digit tile_x tile_y k = of_bool (bit tile_x k) + 2 * of_bool (bit tile_y k)"

definition quad_digits :: "char set" where
  "quad_digits = {CHR ''0'', CHR ''1'', CHR ''2'', CHR ''3''}"

text \<open>Whether a quadkey character sets the bit of \<open>tile_x\<close>, of \<open>tile_y\<close>.\<close>

definition xbit :: "char \<Rightarrow> bool" where
  "xbit c = (c = CHR ''1'' \<or> c = CHR ''3'')"

definition ybit :: "char \<Rightarrow> bool" where
  "ybit c = (c = CHR ''2'' \<or> c = CHR ''3'')"

text \<open>The bits that the last \<open>n\<close> characters of a quadkey contribute to a coordinate.\<close>

primrec quad_bits :: "(char \<Rightarrow> bool) \<Rightarrow> string \<Rightarrow> nat \<Rightarrow> int" where
  "quad_bits P q 0 = 0"
| "quad_bits P q (Suc n) = push_bit n (of_bool (P (q ! (length q - Suc n)))) OR quad_bits P q n"

text \<open>The ordinate \<open>y\<close> that \<open>latlong_to_pixel_xy\<close> computes for a clipped latitude, and the
  latitude that \<open>pixel_xy_to_latlong\<close> computes for a clipped pixel row \<open>p\<close> of a map of
  \<open>msize\<close> rows.\<close>

definition mercator_y :: "real \<Rightarrow> real" where
  "mercator_y latitude =
     0.5 - ln ((1 + sin (latitude * pi / 180)) / (1 - sin (latitude * pi / 180))) / (4 * pi)"

definition pixel_latitude :: "real \<Rightarrow> real \<Rightarrow> real" where
  "pixel_latitude msize p = 90 - 360 * arctan (exp (- (0.5 - p / msize) * 2 * pi)) / pi"

section \<open>Properties\<close>

declare tile_xy_to_quadkey_loop.simps [simp del]
declare quadkey_to_tile_xy_loop.simps [simp del]

subsection \<open>The encoding loop\<close>

lemma str_small: "str 0 = ''0''" "str 1 = ''1''" "str 2 = ''2''" "str 3 = ''3''"
  by (simp_all add: str_def digit_char_def)

lemma and_mask_bit: "(a AND 2 ^ n \<noteq> (0::int)) = bit a n"
  using bit_iff_and_push_bit_not_eq_0 [of a n] by simp

lemma str_quad_digit:
  "str (quad_digit tx ty k) =
     [if bit tx k then (if bit ty k then CHR ''3'' else CHR ''1'')
      else (if bit ty k then CHR ''2'' else CHR ''0'')]"
  by (simp add: quad_digit_def str_small)

lemma tq_loop_stop: "i \<le> 0 \<Longrightarrow> tile_xy_to_quadkey_loop tx ty i q = q"
  by (simp add: tile_xy_to_quadkey_loop.simps)

lemma tq_loop_step:
  "tile_xy_to_quadkey_loop tx ty (1 + int n) q =
     tile_xy_to_quadkey_loop tx ty (int n) (q @ str (quad_digit tx ty n))"
  by (subst tile_xy_to_quadkey_loop.simps)
     (simp add: Let_def and_mask_bit quad_digit_def)

lemma tq_loop_eq:
  "tile_xy_to_quadkey_loop tx ty (int n) q =
     q @ concat (map (\<lambda>k. str (quad_digit tx ty k)) (rev [0..<n]))"
proof (induction n arbitrary: q)
  case 0
  show ?case by (simp add: tq_loop_stop)
next
  case (Suc n)
  show ?case by (simp add: tq_loop_step Suc.IH)
qed

lemma tq_eq_map:
  "tile_xy_to_quadkey_loop tx ty (int n) q =
     q @ map (\<lambda>k. hd (str (quad_digit tx ty k))) (rev [0..<n])"
  unfolding tq_loop_eq by (induction n) (simp_all add: str_quad_digit)

lemma tq_nat:
  "tile_xy_to_quadkey tx ty (int n) =
     map (\<lambda>k. hd (str (quad_digit tx ty k))) (rev [0..<n])"
  by (simp add: tile_xy_to_quadkey_def tq_eq_map)

lemma tq_length: "length (tile_xy_to_quadkey tx ty (int n)) = n"
  by (simp add: tq_nat)

lemma tq_nth:
  "p < n \<Longrightarrow> tile_xy_to_quadkey tx ty (int n) ! p = hd (str (quad_digit tx ty (n - 1 - p)))"
  by (simp add: tq_nat rev_nth)

lemma tq_neg: "lod \<le> 0 \<Longrightarrow> tile_xy_to_quadkey tx ty lod = []"
  by (simp add: tile_xy_to_quadkey_def tq_loop_stop)

lemma hd_str_quad_digit:
  "hd (str (quad_digit tx ty k)) \<in> quad_digits"
  "xbit (hd (str (quad_digit tx ty k))) = bit tx k"
  "ybit (hd (str (quad_digit tx ty k))) = bit ty k"
  by (simp_all add: str_quad_digit quad_digits_def xbit_def ybit_def)

lemma tq_digits: "set (tile_xy_to_quadkey tx ty (int n)) \<subseteq> quad_digits"
  by (auto simp add: tq_nat hd_str_quad_digit)

subsection \<open>The decoding loop\<close>

lemma qk_loop_stop: "i \<le> 0 \<Longrightarrow> quadkey_to_tile_xy_loop q L i t = Inr t"
  by (cases t) (simp add: quadkey_to_tile_xy_loop.simps)

lemma getitem_nat: "k < length s \<Longrightarrow> getitem s (int k) = Inr (s ! k)"
  by (simp add: getitem_def)

lemma qk_loop_step:
  assumes "n < length q"
  shows "quadkey_to_tile_xy_loop q (int (length q)) (1 + int n) (ax, ay) =
     (let c = q ! (length q - Suc n) in
      if c = CHR ''0'' then quadkey_to_tile_xy_loop q (int (length q)) (int n) (ax, ay)
      else if c = CHR ''1'' then
        quadkey_to_tile_xy_loop q (int (length q)) (int n) (ax OR 2 ^ n, ay)
      else if c = CHR ''2'' then
        quadkey_to_tile_xy_loop q (int (length q)) (int n) (ax, ay OR 2 ^ n)
      else if c = CHR ''3'' then
        quadkey_to_tile_xy_loop q (int (length q)) (int n) (ax OR 2 ^ n, ay OR 2 ^ n)
      else Inl (ValueError ''Invalid QuadKey digit sequence.''))"
proof -
  have idx: "int (length q) - (1 + int n) = int (length q - Suc n)"
    using assms by simp
  have g: "getitem q (int (length q) - (1 + int n)) = Inr (q ! (length q - Suc n))"
    unfolding idx using assms by (intro getitem_nat) simp
  show ?thesis
    by (subst quadkey_to_tile_xy_loop.simps) (simp add: g Let_def)
qed

lemma bit_quad_bits: "bit (quad_bits P q n) i = (i < n \<and> P (q ! (length q - Suc i)))"
  by (induction n) (auto simp add: bit_or_iff bit_push_bit_iff bit_1_iff less_Suc_eq)

lemma quad_bits_take: "take_bit n (quad_bits P q n) = quad_bits P q n"
  by (rule bit_eqI) (auto simp add: bit_take_bit_iff bit_quad_bits)

lemma quad_bits_bounds: "0 \<le> quad_bits P q n \<and> quad_bits P q n < 2 ^ n"
  using quad_bits_take [of n P q] by (simp add: take_bit_int_eq_self_iff)

lemma qk_loop_step_valid:
  assumes "n < length q" and "q ! (length q - Suc n) \<in> quad_digits"
  shows "quadkey_to_tile_xy_loop q (int (length q)) (1 + int n) (ax, ay) =
     quadkey_to_tile_xy_loop q (int (length q)) (int n)
       (ax OR push_bit n (of_bool (xbit (q ! (length q - Suc n)))),
        ay OR push_bit n (of_bool (ybit (q ! (length q - Suc n)))))"
  using assms(2) unfolding qk_loop_step [OF assms(1)] quad_digits_def xbit_def ybit_def Let_def
  by auto

lemma qk_loop_ok:
  assumes "n \<le> length q"
    and "\<forall>p. length q - n \<le> p \<and> p < length q \<longrightarrow> q ! p \<in> quad_digits"
  shows "quadkey_to_tile_xy_loop q (int (length q)) (int n) (ax, ay) =
           Inr (ax OR quad_bits xbit q n, ay OR quad_bits ybit q n)"
  using assms
proof (induction n arbitrary: ax ay)
  case 0
  show ?case by (simp add: qk_loop_stop)
next
  case (Suc n)
  have n: "n < length q" "n \<le> length q" using Suc.prems(1) by simp_all
  have c: "q ! (length q - Suc n) \<in> quad_digits"
    using Suc.prems by auto
  have rest: "\<forall>p. length q - n \<le> p \<and> p < length q \<longrightarrow> q ! p \<in> quad_digits"
    using Suc.prems(2) by auto
  have "quadkey_to_tile_xy_loop q (int (length q)) (1 + int n) (ax, ay) =
     Inr ((ax OR push_bit n (of_bool (xbit (q ! (length q - Suc n))))) OR quad_bits xbit q n,
          (ay OR push_bit n (of_bool (ybit (q ! (length q - Suc n))))) OR quad_bits ybit q n)"
    unfolding qk_loop_step_valid [OF n(1) c] by (rule Suc.IH [OF n(2) rest])
  then show ?case
    by (simp add: or.assoc)
qed

lemma qk_loop_err:
  assumes "n \<le> length q"
    and "\<exists>p. length q - n \<le> p \<and> p < length q \<and> q ! p \<notin> quad_digits"
  shows "quadkey_to_tile_xy_loop q (int (length q)) (int n) (ax, ay) =
           Inl (ValueError ''Invalid QuadKey digit sequence.'')"
  using assms
proof (induction n arbitrary: ax ay)
  case 0
  then show ?case by auto
next
  case (Suc n)
  let ?c = "q ! (length q - Suc n)"
  have n: "n < length q" "n \<le> length q" using Suc.prems(1) by simp_all
  show ?case
  proof (cases "?c \<in> quad_digits")
    case False
    then show ?thesis
      by (simp add: qk_loop_step [OF n(1)] quad_digits_def)
  next
    case True
    from Suc.prems(2) obtain p
      where p: "length q - Suc n \<le> p" "p < length q" "q ! p \<notin> quad_digits"
      by blast
    with True have "p \<noteq> length q - Suc n" by auto
    with p have "\<exists>p. length q - n \<le> p \<and> p < length q \<and> q ! p \<notin> quad_digits"
      by (intro exI [of _ p]) auto
    note IH = Suc.IH [OF n(2) this]
    from True show ?thesis
      by (auto simp add: qk_loop_step [OF n(1)] quad_digits_def IH)
  qed
qed

lemma qk_valid:
  assumes "set q \<subseteq> quad_digits"
  shows "quadkey_to_tile_xy q =
    Inr (quad_bits xbit q (length q), quad_bits ybit q (length q), int (length q))"
proof -
  have "\<forall>p. length q - length q \<le> p \<and> p < length q \<longrightarrow> q ! p \<in> quad_digits"
    using assms by (auto simp: subset_iff)
  from qk_loop_ok [OF le_refl this, of 0 0] show ?thesis
    by (simp add: quadkey_to_tile_xy_def)
qed

lemma qk_invalid:
  assumes "\<not> set q \<subseteq> quad_digits"
  shows "quadkey_to_tile_xy q = Inl (ValueError ''Invalid QuadKey digit sequence.'')"
proof -
  from assms obtain p where "p < length q" "q ! p \<notin> quad_digits"
    by (auto simp: subset_iff in_set_conv_nth)
  then have "\<exists>p. length q - length q \<le> p \<and> p < length q \<and> q ! p \<notin> quad_digits"
    by auto
  from qk_loop_err [OF le_refl this, of 0 0] show ?thesis
    by (simp add: quadkey_to_tile_xy_def)
qed

lemma roundtrip_nat:
  "quadkey_to_tile_xy (tile_xy_to_quadkey tx ty (int n)) =
     Inr (take_bit n tx, take_bit n ty, int n)"
proof -
  let ?q = "tile_xy_to_quadkey tx ty (int n)"
  have x: "quad_bits xbit ?q n = take_bit n tx"
    by (rule bit_eqI)
       (auto simp add: bit_quad_bits bit_take_bit_iff tq_length tq_nth hd_str_quad_digit)
  have y: "quad_bits ybit ?q n = take_bit n ty"
    by (rule bit_eqI)
       (auto simp add: bit_quad_bits bit_take_bit_iff tq_length tq_nth hd_str_quad_digit)
  show ?thesis
    using qk_valid [OF tq_digits, of tx ty n] by (simp add: tq_length x y)
qed

subsection \<open>Round trip through the quadkey\<close>

text \<open>
  C1. For a level of detail \<open>lod \<ge> 0\<close> and tile coordinates with \<open>0 \<le> tile_x < 2 ^ lod\<close> and
  \<open>0 \<le> tile_y < 2 ^ lod\<close>, decoding the quadkey of \<open>(tile_x, tile_y, lod)\<close> raises nothing
  and returns exactly \<open>(tile_x, tile_y, lod)\<close>.
\<close>

theorem quadkey_roundtrip:
  assumes "0 \<le> lod" and "0 \<le> tile_x" and "tile_x < 2 ^ nat lod"
    and "0 \<le> tile_y" and "tile_y < 2 ^ nat lod"
  shows "quadkey_to_tile_xy (tile_xy_to_quadkey tile_x tile_y lod) = Inr (tile_x, tile_y, lod)"
proof -
  from assms(1) obtain n where n: "lod = int n"
    using nonneg_int_cases by blast
  have "take_bit n tile_x = tile_x" "take_bit n tile_y = tile_y"
    using assms n by (simp_all add: take_bit_int_eq_self)
  then show ?thesis
    unfolding n using roundtrip_nat [of tile_x tile_y n] by simp
qed

theorem quadkey_roundtrip_witness:
  "tile_xy_to_quadkey 5 3 3 = ''123'' \<and>
   quadkey_to_tile_xy (tile_xy_to_quadkey 5 3 3) = Inr (5, 3, 3)"
proof -
  have "quadkey_to_tile_xy (tile_xy_to_quadkey 5 3 3) = Inr (5, 3, 3)"
    by (rule quadkey_roundtrip) simp_all
  moreover have "tile_xy_to_quadkey 5 3 3 = ''123''"
    by code_simp
  ultimately show ?thesis by simp
qed

subsection \<open>The one error of the decoder\<close>

text \<open>
  C3. \<open>quadkey_to_tile_xy\<close> raises if and only if some character of the quadkey is outside
  \<open>0\<close>, \<open>1\<close>, \<open>2\<close>, \<open>3\<close>, and what it raises then is the \<open>ValueError\<close> of an invalid
  quadkey digit; on every string over these four characters it returns a complete triple
  whose level of detail is the length of the string.
\<close>
theorem quadkey_to_tile_xy_fails_iff:
  "((\<exists>e. quadkey_to_tile_xy quadkey = Inl e) \<longleftrightarrow>
      \<not> set quadkey \<subseteq> {CHR ''0'', CHR ''1'', CHR ''2'', CHR ''3''}) \<and>
   (\<not> set quadkey \<subseteq> {CHR ''0'', CHR ''1'', CHR ''2'', CHR ''3''} \<longrightarrow>
      quadkey_to_tile_xy quadkey = Inl (ValueError ''Invalid QuadKey digit sequence.'')) \<and>
   (set quadkey \<subseteq> {CHR ''0'', CHR ''1'', CHR ''2'', CHR ''3''} \<longrightarrow>
      (\<exists>tile_x tile_y. quadkey_to_tile_xy quadkey = Inr (tile_x, tile_y, int (length quadkey))))"
proof (cases "set quadkey \<subseteq> quad_digits")
  case True
  from qk_valid [OF True] True show ?thesis
    by (simp add: quad_digits_def)
next
  case False
  from qk_invalid [OF False] False show ?thesis
    by (simp add: quad_digits_def)
qed

theorem quadkey_to_tile_xy_fails_iff_witness:
  "quadkey_to_tile_xy ''9'' = Inl (ValueError ''Invalid QuadKey digit sequence.'') \<and>
   quadkey_to_tile_xy ''2193'' = Inl (ValueError ''Invalid QuadKey digit sequence.'') \<and>
   (\<exists>tile_x tile_y. quadkey_to_tile_xy ''213'' = Inr (tile_x, tile_y, 3))"
  using quadkey_to_tile_xy_fails_iff [of "''9''"] quadkey_to_tile_xy_fails_iff [of "''2193''"]
    quadkey_to_tile_xy_fails_iff [of "''213''"]
  by simp

subsection \<open>Range of the decoded tile\<close>

text \<open>
  C9. Whenever \<open>quadkey_to_tile_xy\<close> returns, the level of detail it returns is the length
  of the quadkey and both tile coordinates lie in \<open>0 \<le> t < 2 ^ lod\<close>.
\<close>
theorem quadkey_to_tile_xy_range:
  assumes "quadkey_to_tile_xy quadkey = Inr (tile_x, tile_y, lod)"
  shows "lod = int (length quadkey) \<and> 0 \<le> tile_x \<and> tile_x < 2 ^ nat lod \<and>
         0 \<le> tile_y \<and> tile_y < 2 ^ nat lod"
proof (cases "set quadkey \<subseteq> quad_digits")
  case True
  from qk_valid [OF True] assms
  have "tile_x = quad_bits xbit quadkey (length quadkey)"
    "tile_y = quad_bits ybit quadkey (length quadkey)" "lod = int (length quadkey)"
    by simp_all
  then show ?thesis
    using quad_bits_bounds [of xbit quadkey "length quadkey"]
      quad_bits_bounds [of ybit quadkey "length quadkey"] by simp
next
  case False
  from qk_invalid [OF False] assms show ?thesis by simp
qed

theorem quadkey_to_tile_xy_range_witness:
  "quadkey_to_tile_xy ''213'' = Inr (3, 5, 3) \<and> (3::int) = int (length ''213'') \<and>
   (0::int) \<le> 3 \<and> (3::int) < 2 ^ nat 3 \<and> (0::int) \<le> 5 \<and> (5::int) < 2 ^ nat 3"
proof -
  have e: "quadkey_to_tile_xy ''213'' = Inr (3, 5, 3)"
    by code_simp
  from quadkey_to_tile_xy_range [OF e] e show ?thesis by simp
qed

subsection \<open>Level of detail zero\<close>

text \<open>
  C7. At level of detail 0 the quadkey of every tile is the empty string, and the empty
  string decodes to \<open>(0, 0, 0)\<close>.
\<close>
theorem quadkey_level_zero:
  "tile_xy_to_quadkey tile_x tile_y 0 = [] \<and> quadkey_to_tile_xy [] = Inr (0, 0, 0)"
  by (simp add: tq_neg quadkey_to_tile_xy_def qk_loop_stop)

lemma quad_digit_take:
  "k < n \<Longrightarrow> quad_digit (take_bit n tx) (take_bit n ty) k = quad_digit tx ty k"
  by (simp add: quad_digit_def bit_take_bit_iff)

subsection \<open>Only the low bits of a tile coordinate are encoded\<close>

text \<open>
  C10. For \<open>lod \<ge> 0\<close> and non-negative tile coordinates of any size, the quadkey is that
  of the coordinates reduced modulo \<open>2 ^ lod\<close>: a coordinate out of range is wrapped, and
  nothing is raised (the function returns a string on every input).
\<close>
theorem tile_xy_to_quadkey_low_bits:
  assumes "0 \<le> lod" and "0 \<le> tile_x" and "0 \<le> tile_y"
  shows "tile_xy_to_quadkey tile_x tile_y lod =
         tile_xy_to_quadkey (tile_x mod 2 ^ nat lod) (tile_y mod 2 ^ nat lod) lod"
proof -
  from assms(1) obtain n where n: "lod = int n"
    using nonneg_int_cases by blast
  have "tile_xy_to_quadkey tile_x tile_y (int n) =
        tile_xy_to_quadkey (take_bit n tile_x) (take_bit n tile_y) (int n)"
    unfolding tq_nat by (rule map_cong) (simp_all add: quad_digit_take)
  then show ?thesis
    by (simp add: n take_bit_eq_mod)
qed

theorem tile_xy_to_quadkey_low_bits_witness:
  "tile_xy_to_quadkey 5 6 2 = tile_xy_to_quadkey (5 mod 2 ^ nat 2) (6 mod 2 ^ nat 2) 2 \<and>
   tile_xy_to_quadkey 5 6 2 = ''21'' \<and> tile_xy_to_quadkey 1 2 2 = ''21''"
proof -
  have "tile_xy_to_quadkey 5 6 2 = tile_xy_to_quadkey (5 mod 2 ^ nat 2) (6 mod 2 ^ nat 2) 2"
    by (rule tile_xy_to_quadkey_low_bits) simp_all
  moreover have "tile_xy_to_quadkey 5 6 2 = ''21''" "tile_xy_to_quadkey 1 2 2 = ''21''"
    by code_simp+
  ultimately show ?thesis by simp
qed

lemma tq_shape:
  "length (tile_xy_to_quadkey tx ty (int n)) = n \<and>
   set (tile_xy_to_quadkey tx ty (int n)) \<subseteq> {CHR ''0'', CHR ''1'', CHR ''2'', CHR ''3''} \<and>
   (\<forall>p<n. [tile_xy_to_quadkey tx ty (int n) ! p] =
       str (of_bool (bit tx (n - 1 - p)) + 2 * of_bool (bit ty (n - 1 - p))))"
  using tq_digits [of tx ty n]
  by (simp add: tq_length tq_nth str_quad_digit quad_digits_def str_small)

subsection \<open>The digits of a quadkey\<close>

text \<open>
  C4. For a positive \<open>lod\<close> and tile coordinates with \<open>0 \<le> t < 2 ^ lod\<close>, the quadkey has
  length \<open>lod\<close>, its characters are among \<open>0\<close>, \<open>1\<close>, \<open>2\<close>, \<open>3\<close>, and the character at
  position \<open>p\<close> (from 0) is the decimal digit of bit \<open>lod - 1 - p\<close> of \<open>tile_x\<close> plus twice
  bit \<open>lod - 1 - p\<close> of \<open>tile_y\<close>. In particular the quadkeys of \<open>(3, 3, 2)\<close>, \<open>(0, 0, 2)\<close>,
  \<open>(1, 0, 1)\<close> and \<open>(0, 1, 1)\<close> are \<open>33\<close>, \<open>00\<close>, \<open>1\<close> and \<open>2\<close>.
\<close>

theorem tile_xy_to_quadkey_digits:
  "(\<forall>lod tile_x tile_y.
      0 < lod \<and> 0 \<le> tile_x \<and> tile_x < 2 ^ nat lod \<and> 0 \<le> tile_y \<and> tile_y < 2 ^ nat lod \<longrightarrow>
      length (tile_xy_to_quadkey tile_x tile_y lod) = nat lod \<and>
      set (tile_xy_to_quadkey tile_x tile_y lod) \<subseteq> {CHR ''0'', CHR ''1'', CHR ''2'', CHR ''3''} \<and>
      (\<forall>p<nat lod. [tile_xy_to_quadkey tile_x tile_y lod ! p] =
         str (of_bool (bit tile_x (nat lod - 1 - p)) + 2 * of_bool (bit tile_y (nat lod - 1 - p))))) \<and>
   tile_xy_to_quadkey 3 3 2 = ''33'' \<and> tile_xy_to_quadkey 0 0 2 = ''00'' \<and>
   tile_xy_to_quadkey 1 0 1 = ''1'' \<and> tile_xy_to_quadkey 0 1 1 = ''2''"
proof -
  have gen: "length (tile_xy_to_quadkey tile_x tile_y lod) = nat lod \<and>
      set (tile_xy_to_quadkey tile_x tile_y lod) \<subseteq> {CHR ''0'', CHR ''1'', CHR ''2'', CHR ''3''} \<and>
      (\<forall>p<nat lod. [tile_xy_to_quadkey tile_x tile_y lod ! p] =
         str (of_bool (bit tile_x (nat lod - 1 - p)) + 2 * of_bool (bit tile_y (nat lod - 1 - p))))"
    if "0 < lod" for lod tile_x tile_y
  proof -
    from that obtain n where n: "lod = int n"
      using nonneg_int_cases [of lod] by auto
    show ?thesis unfolding n nat_int by (rule tq_shape)
  qed
  have ex: "tile_xy_to_quadkey 3 3 2 = ''33''" "tile_xy_to_quadkey 0 0 2 = ''00''"
    "tile_xy_to_quadkey 1 0 1 = ''1''" "tile_xy_to_quadkey 0 1 1 = ''2''"
    by code_simp+
  from gen ex show ?thesis by blast
qed

theorem tile_xy_to_quadkey_digits_witness:
  "tile_xy_to_quadkey 5 3 3 = ''123'' \<and> length (tile_xy_to_quadkey 5 3 3) = 3 \<and>
   [tile_xy_to_quadkey 5 3 3 ! 0] = str (of_bool (bit (5::int) 2) + 2 * of_bool (bit (3::int) 2))"
proof -
  have "(0::int) < 3 \<and> (0::int) \<le> 5 \<and> (5::int) < 2 ^ nat 3 \<and> (0::int) \<le> 3 \<and> (3::int) < 2 ^ nat 3"
    by simp
  with tile_xy_to_quadkey_digits
  have "length (tile_xy_to_quadkey 5 3 3) = nat 3 \<and>
      (\<forall>p<nat 3. [tile_xy_to_quadkey 5 3 3 ! p] =
         str (of_bool (bit (5::int) (nat 3 - 1 - p)) + 2 * of_bool (bit (3::int) (nat 3 - 1 - p))))"
    by blast
  then have "length (tile_xy_to_quadkey 5 3 3) = 3"
    "[tile_xy_to_quadkey 5 3 3 ! 0] = str (of_bool (bit (5::int) 2) + 2 * of_bool (bit (3::int) 2))"
    by simp_all
  moreover have "tile_xy_to_quadkey 5 3 3 = ''123''"
    by code_simp
  ultimately show ?thesis by simp
qed

subsection \<open>Pixels to tiles\<close>

text \<open>
  C2 says that \<open>pixel_xy_to_tile_xy\<close> returns the floor quotients \<open>pixel_x div 256\<close> and
  \<open>pixel_y div 256\<close>. The source divides with \<open>/\<close>, which in Python 3 is true division:
  at the pixel \<open>(257, 513)\<close> it returns \<open>(257 / 256, 513 / 256)\<close>, that is
  \<open>(1.00390625, 2.00390625)\<close>, and not the tile \<open>(1, 2)\<close> that contains the pixel.
\<close>
theorem pixel_xy_to_tile_xy_true_division:
  "pixel_xy_to_tile_xy 257 513 = (257 / 256, 513 / 256) \<and>
   pixel_xy_to_tile_xy 257 513 \<noteq> (real_of_int (257 div 256), real_of_int (513 div 256))"
  by (simp add: pixel_xy_to_tile_xy_def)

subsection \<open>Tiles to pixels\<close>

text \<open>
  C6. \<open>tile_xy_to_pixel_xy\<close> returns \<open>(tile_x * 256, tile_y * 256)\<close>. This is the upper-left
  pixel of the tile: each coordinate lies in the tile (its floor quotient by 256 is the tile
  coordinate) at offset 0 within it (its remainder is 0, where the centre has 128).
\<close>
theorem tile_xy_to_pixel_xy_corner:
  "tile_xy_to_pixel_xy tile_x tile_y = (tile_x * 256, tile_y * 256) \<and>
   fst (tile_xy_to_pixel_xy tile_x tile_y) div 256 = tile_x \<and>
   fst (tile_xy_to_pixel_xy tile_x tile_y) mod 256 = 0 \<and>
   snd (tile_xy_to_pixel_xy tile_x tile_y) div 256 = tile_y \<and>
   snd (tile_xy_to_pixel_xy tile_x tile_y) mod 256 = 0"
  by (simp add: tile_xy_to_pixel_xy_def)

subsection \<open>Map size, clipping and the sine of a clipped latitude\<close>

lemma map_size_eq: "0 \<le> lod \<Longrightarrow> map_size lod = Inr (256 * 2 ^ nat lod)"
  by (simp add: map_size_def lshift_def push_bit_eq_mult)

lemma map_size_neg: "lod < 0 \<Longrightarrow> map_size lod = Inl (ValueError ''negative shift count'')"
  by (simp add: map_size_def lshift_def)

lemma float_of_int_map_size:
  assumes "0 \<le> lod" and "lod \<le> 1015"
  shows "float_of_int (256 * 2 ^ nat lod) = Inr (256 * 2 ^ nat lod)"
proof -
  have "nat lod \<le> 1015"
    using assms by simp
  then have "(2::int) ^ nat lod \<le> 2 ^ 1015"
    by (intro power_increasing) simp_all
  then have "256 * (2::int) ^ nat lod < 2 ^ 1024 - 2 ^ 970"
    by simp
  moreover have "\<bar>256 * (2::int) ^ nat lod\<bar> = 256 * 2 ^ nat lod"
    by simp
  ultimately show ?thesis
    by (simp add: float_of_int_def)
qed

lemma float_of_int_map_size_overflow:
  assumes "1016 \<le> lod"
  shows "float_of_int (256 * 2 ^ nat lod) = Inl (OverflowError ''int too large to convert to float'')"
proof -
  have "1016 \<le> nat lod"
    using assms by simp
  then have "(2::int) ^ 1016 \<le> 2 ^ nat lod"
    by (intro power_increasing) simp_all
  then have "2 ^ 1024 - 2 ^ 970 \<le> 256 * (2::int) ^ nat lod"
    by simp
  moreover have "\<bar>256 * (2::int) ^ nat lod\<bar> = 256 * 2 ^ nat lod"
    by simp
  ultimately show ?thesis
    by (simp only: float_of_int_def if_True)
qed

lemma clip_range: "lo \<le> hi \<Longrightarrow> lo \<le> clip n lo hi \<and> clip n lo hi \<le> hi"
  by (auto simp add: clip_def)

lemma clip_id: "lo \<le> n \<Longrightarrow> n \<le> hi \<Longrightarrow> clip n lo hi = n"
  by (simp add: clip_def)

lemma lat_radians:
  assumes "MIN_LATITUDE \<le> lat" "lat \<le> MAX_LATITUDE"
  shows "- (pi / 2) < lat * pi / 180 \<and> lat * pi / 180 < pi / 2"
proof -
  have "- 90 < lat" "lat < 90"
    using assms by (simp_all add: MIN_LATITUDE_def MAX_LATITUDE_def)
  then have "- 90 * pi < lat * pi" "lat * pi < 90 * pi"
    using pi_gt_zero by (simp_all only: mult_less_cancel_right_pos)
  then show ?thesis by simp
qed

lemma sin_lat_bounds:
  assumes "MIN_LATITUDE \<le> lat" "lat \<le> MAX_LATITUDE"
  shows "- 1 < sin (lat * pi / 180) \<and> sin (lat * pi / 180) < 1"
proof -
  let ?a = "lat * pi / 180"
  from lat_radians [OF assms] have "0 < cos ?a"
    by (intro cos_gt_zero_pi) simp_all
  then have "0 < (cos ?a)\<^sup>2" by simp
  then have "(sin ?a)\<^sup>2 < 1"
    using sin_cos_squared_add [of ?a] by linarith
  then have "\<bar>sin ?a\<bar> < 1"
    by (simp add: abs_square_less_1)
  then show ?thesis by linarith
qed

lemma ratio_of_clipped_latitude:
  "1 - sin (clip latitude MIN_LATITUDE MAX_LATITUDE * pi / 180) \<noteq> 0 \<and>
   \<not> (1 + sin (clip latitude MIN_LATITUDE MAX_LATITUDE * pi / 180)) /
       (1 - sin (clip latitude MIN_LATITUDE MAX_LATITUDE * pi / 180)) \<le> 0"
proof -
  let ?lat = "clip latitude MIN_LATITUDE MAX_LATITUDE"
  let ?s = "sin (?lat * pi / 180)"
  have "MIN_LATITUDE \<le> MAX_LATITUDE"
    by (simp add: MIN_LATITUDE_def MAX_LATITUDE_def)
  from clip_range [OF this, of latitude] have "- 1 < ?s \<and> ?s < 1"
    by (intro sin_lat_bounds) simp_all
  then show ?thesis
    by (simp add: divide_le_0_iff)
qed

lemma latlong_to_pixel_xy_eq:
  assumes "0 \<le> lod" and "lod \<le> 1015"
  shows "latlong_to_pixel_xy latitude longitude lod =
    (let lat = clip latitude MIN_LATITUDE MAX_LATITUDE;
         lon = clip longitude (- 180) 180;
         s = sin (lat * pi / 180);
         m = 256 * 2 ^ nat lod
     in Inr (clip ((lon + 180) / 360 * m + 0.5) 0 (m - 1),
             clip ((0.5 - ln ((1 + s) / (1 - s)) / (4 * pi)) * m + 0.5) 0 (m - 1)))"
  using ratio_of_clipped_latitude [of latitude]
  by (simp add: latlong_to_pixel_xy_def Let_def truediv_def math_log_def
      map_size_eq [OF assms(1)] float_of_int_map_size [OF assms]
      MIN_LONGITUDE_def MAX_LONGITUDE_def)

lemma latlong_to_pixel_xy_overflow:
  assumes "1016 \<le> lod"
  shows "latlong_to_pixel_xy latitude longitude lod =
    Inl (OverflowError ''int too large to convert to float'')"
proof -
  have lod: "0 \<le> lod" using assms by simp
  show ?thesis
    using ratio_of_clipped_latitude [of latitude]
    by (simp add: latlong_to_pixel_xy_def Let_def truediv_def math_log_def
        map_size_eq [OF lod] float_of_int_map_size_overflow [OF assms])
qed

subsection \<open>Range of the projected pixel\<close>

text \<open>
  C5. For every latitude and longitude and every \<open>lod \<ge> 0\<close>, both pixel coordinates that
  \<open>latlong_to_pixel_xy\<close> returns lie between 0 and \<open>map_size lod - 1\<close>, where \<open>map_size lod\<close> is
  \<open>256 * 2 ^ lod\<close>. The function does return up to level 1015; from level 1016 on it returns
  nothing, since converting the map size to a float raises \<open>OverflowError\<close>.
\<close>

theorem latlong_to_pixel_xy_range:
  assumes "0 \<le> lod"
  shows "map_size lod = Inr (256 * 2 ^ nat lod) \<and>
    (\<forall>pixel_x pixel_y.
       latlong_to_pixel_xy latitude longitude lod = Inr (pixel_x, pixel_y) \<longrightarrow>
         0 \<le> pixel_x \<and> pixel_x \<le> real_of_int (256 * 2 ^ nat lod) - 1 \<and>
         0 \<le> pixel_y \<and> pixel_y \<le> real_of_int (256 * 2 ^ nat lod) - 1) \<and>
    (lod \<le> 1015 \<longrightarrow>
       (\<exists>pixel_x pixel_y. latlong_to_pixel_xy latitude longitude lod = Inr (pixel_x, pixel_y))) \<and>
    (1016 \<le> lod \<longrightarrow>
       latlong_to_pixel_xy latitude longitude lod =
         Inl (OverflowError ''int too large to convert to float''))"
proof (cases "lod \<le> 1015")
  case True
  have "(1::real) \<le> 2 ^ nat lod"
    by (rule one_le_power) simp
  then have "(1::real) \<le> 256 * 2 ^ nat lod"
    by linarith
  then have m: "(0::real) \<le> 256 * 2 ^ nat lod - 1" by simp
  show ?thesis
    using clip_range [OF m] True
    by (simp add: latlong_to_pixel_xy_eq [OF assms True] map_size_eq [OF assms] Let_def)
next
  case False
  then have big: "1016 \<le> lod" by simp
  show ?thesis
    using False
    by (simp add: latlong_to_pixel_xy_overflow [OF big] map_size_eq [OF assms])
qed

theorem latlong_to_pixel_xy_range_witness:
  "map_size 0 = Inr 256 \<and> latlong_to_pixel_xy 0 200 0 = Inr (255, 128.5) \<and>
   (0::real) \<le> 255 \<and> (255::real) \<le> real_of_int (256 * 2 ^ nat 0) - 1 \<and>
   (0::real) \<le> 128.5 \<and> (128.5::real) \<le> real_of_int (256 * 2 ^ nat 0) - 1 \<and>
   latlong_to_pixel_xy 0 200 1016 = Inl (OverflowError ''int too large to convert to float'')"
proof -
  have e: "latlong_to_pixel_xy 0 200 0 = Inr (255, 128.5)"
    by (simp add: latlong_to_pixel_xy_eq clip_def MIN_LATITUDE_def MAX_LATITUDE_def)
  have "(0::int) \<le> 0" "(0::int) \<le> 1016" "(1016::int) \<le> 1016"
    by simp_all
  with latlong_to_pixel_xy_range [of 0 0 200] latlong_to_pixel_xy_range [of 1016 0 200] e
  show ?thesis
    by simp
qed

section \<open>Round trip through the pixel coordinates\<close>

subsection \<open>Numerical bounds: \<open>pi\<close>, \<open>exp pi\<close> and the latitude of the map edge\<close>

lemma arctan_upper_poly:
  assumes "0 \<le> u"
  shows "arctan u \<le> u - u ^ 3 / 3 + u ^ 5 / 5"
proof -
  let ?h = "\<lambda>x::real. x - x ^ 3 / 3 + x ^ 5 / 5 - arctan x"
  have "?h 0 \<le> ?h u"
  proof (rule DERIV_nonneg_imp_nondecreasing [OF assms])
    fix x :: real
    have d: "DERIV ?h x :> 1 - x ^ 2 + x ^ 4 - inverse (1 + x\<^sup>2)"
      by (auto intro!: derivative_eq_intros DERIV_arctan simp: field_simps)
    have pos: "1 + x\<^sup>2 > 0"
      by (simp add: add_pos_nonneg)
    have "1 - x ^ 2 + x ^ 4 - inverse (1 + x\<^sup>2) = x ^ 6 / (1 + x\<^sup>2)"
      using pos by (simp add: field_simps) (simp add: algebra_simps power2_eq_square power_numeral_reduce)?
    moreover have "0 \<le> x ^ 6 / (1 + x\<^sup>2)"
      using pos by (intro divide_nonneg_pos) simp_all
    ultimately show "\<exists>y. DERIV ?h x :> y \<and> 0 \<le> y"
      using d by auto
  qed
  then show ?thesis by simp
qed

lemma arctan_lower_poly:
  assumes "0 \<le> u"
  shows "u - u ^ 3 / 3 + u ^ 5 / 5 - u ^ 7 / 7 + u ^ 9 / 9 - u ^ 11 / 11 \<le> arctan u"
proof -
  let ?h = "\<lambda>x::real. arctan x - (x - x ^ 3 / 3 + x ^ 5 / 5 - x ^ 7 / 7 + x ^ 9 / 9 - x ^ 11 / 11)"
  have "?h 0 \<le> ?h u"
  proof (rule DERIV_nonneg_imp_nondecreasing [OF assms])
    fix x :: real
    have d: "DERIV ?h x :> inverse (1 + x\<^sup>2) - (1 - x ^ 2 + x ^ 4 - x ^ 6 + x ^ 8 - x ^ 10)"
      by (auto intro!: derivative_eq_intros DERIV_arctan simp: field_simps)
    have pos: "1 + x\<^sup>2 > 0"
      by (simp add: add_pos_nonneg)
    have "inverse (1 + x\<^sup>2) - (1 - x ^ 2 + x ^ 4 - x ^ 6 + x ^ 8 - x ^ 10) = x ^ 12 / (1 + x\<^sup>2)"
      using pos by (simp add: field_simps) (simp add: algebra_simps power2_eq_square power_numeral_reduce)?
    moreover have "0 \<le> x ^ 12 / (1 + x\<^sup>2)"
      using pos by (intro divide_nonneg_pos) simp_all
    ultimately show "\<exists>y. DERIV ?h x :> y \<and> 0 \<le> y"
      using d by auto
  qed
  then show ?thesis by simp
qed


lemma pi_lower: "3.14159265 \<le> pi"
proof -
  define A :: real
    where "A = 1/5 - (1/5) ^ 3 / 3 + (1/5) ^ 5 / 5 - (1/5) ^ 7 / 7 + (1/5) ^ 9 / 9 - (1/5) ^ 11 / 11"
  define B :: real
    where "B = 1/239 - (1/239) ^ 3 / 3 + (1/239) ^ 5 / 5"
  have a: "A \<le> arctan (1 / 5)"
    unfolding A_def by (rule arctan_lower_poly) simp
  have b: "arctan (1 / 239) \<le> B"
    unfolding B_def by (rule arctan_upper_poly) simp
  have "3.14159265 / 4 \<le> 4 * A - B"
    unfolding A_def B_def by (simp add: power_divide)
  also have "\<dots> \<le> 4 * arctan (1 / 5) - arctan (1 / 239)"
    using a b by linarith
  also have "\<dots> = pi / 4"
    by (rule machin [symmetric])
  finally show ?thesis by simp
qed

lemma exp_lower_sum:
  fixes x :: real
  assumes "0 \<le> x"
  shows "(\<Sum>m<n. x ^ m / fact m) \<le> exp x"
proof -
  obtain t where "exp x = (\<Sum>m<n. x ^ m / fact m) + (exp t / fact n) * x ^ n"
    using Maclaurin_exp_le [of x n] by blast
  moreover have "0 \<le> (exp t / fact n) * x ^ n"
    using assms by simp
  ultimately show ?thesis by linarith
qed

lemma exp_square_lower:
  fixes a b x :: real
  assumes "a \<le> exp x" and "0 \<le> a" and "b \<le> a * a"
  shows "b \<le> exp (2 * x)"
proof -
  have "a * a \<le> exp x * exp x"
    using assms(1,2) by (intro mult_mono) simp_all
  also have "\<dots> = exp (2 * x)"
    by (simp add: exp_add [symmetric])
  finally show ?thesis
    using assms(3) by linarith
qed

lemma exp_pi_lower: "23.14069254758 \<le> exp pi"
proof -
  have "(1.21695220523 :: real) \<le> (\<Sum>m<9. 0.196349540625 ^ m / fact m)"
    by (simp add: lessThan_nat_numeral lessThan_Suc fact_numeral power_divide)
  also have "\<dots> \<le> exp 0.196349540625"
    by (rule exp_lower_sum) simp
  finally have e0: "(1.21695220523 :: real) \<le> exp 0.196349540625" .
  have e1: "(1.48097266981 :: real) \<le> exp (2 * 0.196349540625)"
    by (rule exp_square_lower [OF e0]) simp_all
  have e2: "(2.19328004872 :: real) \<le> exp (2 * (2 * 0.196349540625))"
    by (rule exp_square_lower [OF e1]) simp_all
  have e3: "(4.81047737211 :: real) \<le> exp (2 * (2 * (2 * 0.196349540625)))"
    by (rule exp_square_lower [OF e2]) simp_all
  have e4: "(23.14069254758 :: real) \<le> exp (2 * (2 * (2 * (2 * 0.196349540625))))"
    by (rule exp_square_lower [OF e3]) simp_all
  have "(2 * (2 * (2 * (2 * 0.196349540625)))) \<le> pi"
    using pi_lower by simp
  then have "exp (2 * (2 * (2 * (2 * 0.196349540625)))) \<le> exp pi"
    by (simp only: exp_le_cancel_iff)
  with e4 show ?thesis by linarith
qed

lemma arctan_exp_pi_upper:
  "arctan (exp (- pi)) \<le> pi * (90 - 85.05112878 + 180 / 2 ^ 31) / 360"
proof -
  define U :: real where "U = 1 / 23.14069254758"
  have "exp (- pi) = 1 / exp pi"
    by (simp add: exp_minus field_simps)
  also have "\<dots> \<le> U"
    unfolding U_def using exp_pi_lower by (intro divide_left_mono) simp_all
  finally have "arctan (exp (- pi)) \<le> arctan U"
    by (rule arctan_monotone')
  also have "\<dots> \<le> U - U ^ 3 / 3 + U ^ 5 / 5"
    by (rule arctan_upper_poly) (simp add: U_def)
  also have "\<dots> \<le> 3.14159265 * (90 - 85.05112878 + 180 / 2 ^ 31) / 360"
    unfolding U_def by (simp add: power_divide)
  also have "\<dots> \<le> pi * (90 - 85.05112878 + 180 / 2 ^ 31) / 360"
    using pi_lower by simp
  finally show ?thesis .
qed

subsection \<open>The function \<open>arctan (exp t)\<close>\<close>

lemma arctan_exp_mono: "a \<le> b \<Longrightarrow> arctan (exp a) \<le> arctan (exp b)"
  for a b :: real
  by (simp add: arctan_le_iff)

lemma arctan_exp_deriv:
  "DERIV (\<lambda>t::real. arctan (exp t)) t :> exp t / (1 + (exp t)\<^sup>2)"
  by (auto intro!: derivative_eq_intros simp: field_simps)

lemma arctan_exp_slope_half:
  fixes a b :: real
  assumes "a \<le> b"
  shows "arctan (exp b) - arctan (exp a) \<le> (b - a) / 2"
proof -
  let ?h = "\<lambda>t::real. t / 2 - arctan (exp t)"
  have "?h a \<le> ?h b"
  proof (rule DERIV_nonneg_imp_nondecreasing [OF assms])
    fix t :: real
    have "DERIV (\<lambda>t::real. t / 2) t :> 1 / 2"
      by (auto intro!: derivative_eq_intros)
    from DERIV_diff [OF this arctan_exp_deriv]
    have d: "DERIV ?h t :> 1 / 2 - exp t / (1 + (exp t)\<^sup>2)" .
    have "0 \<le> (exp t - 1)\<^sup>2" by simp
    then have "2 * exp t \<le> 1 + (exp t)\<^sup>2"
      by (simp add: power2_eq_square algebra_simps)
    moreover have "0 < 1 + (exp t)\<^sup>2"
      by (simp add: add_pos_nonneg)
    ultimately have "exp t / (1 + (exp t)\<^sup>2) \<le> 1 / 2"
      by (simp add: field_simps)
    then show "\<exists>y. DERIV ?h t :> y \<and> 0 \<le> y"
      using d by (intro exI [of _ "1 / 2 - exp t / (1 + (exp t)\<^sup>2)"]) simp
  qed
  then show ?thesis by simp
qed

lemma arctan_exp_slope_quarter:
  fixes a b :: real
  assumes "3 \<le> a" and "a \<le> b"
  shows "arctan (exp b) - arctan (exp a) \<le> (b - a) / 4"
proof -
  let ?h = "\<lambda>t::real. t / 4 - arctan (exp t)"
  have "?h a \<le> ?h b"
  proof (rule DERIV_nonneg_imp_nondecreasing [OF assms(2)])
    fix t :: real
    assume t: "a \<le> t"
    have "DERIV (\<lambda>t::real. t / 4) t :> 1 / 4"
      by (auto intro!: derivative_eq_intros)
    from DERIV_diff [OF this arctan_exp_deriv]
    have d: "DERIV ?h t :> 1 / 4 - exp t / (1 + (exp t)\<^sup>2)" .
    have "1 + t \<le> exp t" by (rule exp_ge_add_one_self)
    with t assms(1) have e: "4 \<le> exp t" by linarith
    then have "4 * exp t \<le> exp t * exp t"
      by (intro mult_right_mono) simp_all
    moreover have "exp t * exp t \<le> 1 + (exp t)\<^sup>2"
      by (simp add: power2_eq_square)
    ultimately have "4 * exp t \<le> 1 + (exp t)\<^sup>2"
      by linarith
    moreover have "0 < 1 + (exp t)\<^sup>2"
      by (simp add: add_pos_nonneg)
    ultimately have "exp t / (1 + (exp t)\<^sup>2) \<le> 1 / 4"
      by (simp add: field_simps)
    then show "\<exists>y. DERIV ?h t :> y \<and> 0 \<le> y"
      using d by (intro exI [of _ "1 / 4 - exp t / (1 + (exp t)\<^sup>2)"]) simp
  qed
  then show ?thesis by simp
qed

lemma arctan_exp_lipschitz:
  fixes a b :: real
  shows "\<bar>arctan (exp a) - arctan (exp b)\<bar> \<le> \<bar>a - b\<bar> / 2"
proof (cases "a \<le> b")
  case True
  from arctan_exp_mono [OF True] arctan_exp_slope_half [OF True] True show ?thesis
    by simp
next
  case False
  then have ba: "b \<le> a" by simp
  from arctan_exp_mono [OF ba] arctan_exp_slope_half [OF ba] ba show ?thesis
    by simp
qed

lemma arctan_exp_minus: "arctan (exp (- t)) = pi / 2 - arctan (exp t)"
  for t :: real
  using arctan_inverse [of "exp t"] by (simp add: exp_minus inverse_eq_divide)

text \<open>The inverse of the Mercator ordinate (the Gudermannian function), in the form the
  two projections use it.\<close>

lemma arctan_exp_half_ln:
  fixes a :: real
  assumes "- (pi / 2) < a" and "a < pi / 2"
  shows "arctan (exp (- (ln ((1 + sin a) / (1 - sin a)) / 2))) = pi / 4 - a / 2"
proof -
  let ?s = "sin a" and ?c = "cos a"
  let ?b = "pi / 4 - a / 2"
  have c: "0 < ?c"
    using assms by (intro cos_gt_zero_pi) simp_all
  then have "0 < ?c\<^sup>2" by simp
  then have "?s\<^sup>2 < 1"
    using sin_cos_squared_add [of a] by linarith
  then have "\<bar>?s\<bar> < 1"
    by (simp add: abs_square_less_1)
  then have s: "- 1 < ?s" "?s < 1" by linarith+
  then have R: "0 < (1 + ?s) / (1 - ?s)" by simp
  have "tan ?b = sin (2 * ?b) / (cos (2 * ?b) + 1)"
    by (rule tan_half)
  also have "2 * ?b = pi / 2 - a" by simp
  also have "sin (pi / 2 - a) = ?c"
    by (simp add: sin_diff)
  also have "cos (pi / 2 - a) = ?s"
    by (simp add: cos_diff)
  finally have tanb: "tan ?b = ?c / (?s + 1)" .
  have tpos: "0 \<le> tan ?b"
    unfolding tanb using c s by simp
  have "(tan ?b)\<^sup>2 = ?c\<^sup>2 / (?s + 1)\<^sup>2"
    unfolding tanb by (simp add: power_divide)
  also have "?c\<^sup>2 = (1 - ?s) * (1 + ?s)"
    using sin_cos_squared_add [of a] by (simp add: algebra_simps power2_eq_square)
  also have "(1 - ?s) * (1 + ?s) / (?s + 1)\<^sup>2 = (1 - ?s) / (1 + ?s)"
  proof -
    have "1 + ?s \<noteq> 0" using s by simp
    then show ?thesis
      by (simp add: power2_eq_square add.commute)
  qed
  finally have t2: "(tan ?b)\<^sup>2 = (1 - ?s) / (1 + ?s)" .
  let ?e = "exp (- (ln ((1 + ?s) / (1 - ?s)) / 2))"
  have "?e\<^sup>2 = exp (- ln ((1 + ?s) / (1 - ?s)))"
    by (simp add: power2_eq_square exp_add [symmetric])
  also have "\<dots> = (1 - ?s) / (1 + ?s)"
    using R by (simp add: exp_minus)
  finally have e2: "?e\<^sup>2 = (tan ?b)\<^sup>2"
    unfolding t2 .
  have "?e = tan ?b"
    by (rule power2_eq_imp_eq [OF e2 _ tpos]) simp
  moreover have "arctan (tan ?b) = ?b"
  proof (rule arctan_tan)
    show "- (pi / 2) < ?b" using assms by linarith
    show "?b < pi / 2" using assms by linarith
  qed
  ultimately show ?thesis by (simp only:)
qed

subsection \<open>The latitude of a pixel row\<close>

lemma pixel_latitude_alt:
  "pixel_latitude m p = 90 - 360 / pi * arctan (exp (2 * pi * p / m - pi))"
proof -
  have "- (0.5 - p / m) * 2 * pi = 2 * pi * p / m - pi"
    by (simp add: algebra_simps)
  then show ?thesis
    by (simp add: pixel_latitude_def)
qed

lemma pixel_latitude_diff:
  "pixel_latitude m p - pixel_latitude m q =
     360 / pi * (arctan (exp (2 * pi * q / m - pi)) - arctan (exp (2 * pi * p / m - pi)))"
  by (simp add: pixel_latitude_alt algebra_simps)

lemma pixel_latitude_mono:
  assumes "0 < m" and "p \<le> q"
  shows "pixel_latitude m q \<le> pixel_latitude m p"
proof -
  have "2 * pi * p / m - pi \<le> 2 * pi * q / m - pi"
    using assms by (simp add: divide_right_mono mult_left_mono)
  from arctan_exp_mono [OF this]
  have "0 \<le> 360 / pi * (arctan (exp (2 * pi * q / m - pi)) - arctan (exp (2 * pi * p / m - pi)))"
    by simp
  then show ?thesis
    using pixel_latitude_diff [of m p q] by linarith
qed

lemma pixel_latitude_lipschitz:
  assumes "0 < m"
  shows "\<bar>pixel_latitude m p - pixel_latitude m q\<bar> \<le> 360 / m * \<bar>p - q\<bar>"
proof -
  let ?tp = "2 * pi * p / m - pi" and ?tq = "2 * pi * q / m - pi"
  define D where "D = arctan (exp ?tq) - arctan (exp ?tp)"
  have "?tq - ?tp = 2 * pi * (q - p) / m"
    by (simp add: algebra_simps diff_divide_distrib)
  then have "\<bar>?tq - ?tp\<bar> = 2 * pi * \<bar>p - q\<bar> / m"
    using assms by (simp add: abs_mult abs_minus_commute)
  with arctan_exp_lipschitz [of ?tq ?tp]
  have "\<bar>D\<bar> \<le> pi * \<bar>p - q\<bar> / m"
    unfolding D_def by simp
  then have "360 / pi * \<bar>D\<bar> \<le> 360 / pi * (pi * \<bar>p - q\<bar> / m)"
    by (intro mult_left_mono) simp_all
  also have "\<dots> = 360 / m * \<bar>p - q\<bar>"
    by simp
  finally have "360 / pi * \<bar>D\<bar> \<le> 360 / m * \<bar>p - q\<bar>" .
  moreover have "\<bar>360 / pi * D\<bar> = 360 / pi * \<bar>D\<bar>"
    by (simp add: abs_mult)
  ultimately show ?thesis
    unfolding pixel_latitude_diff D_def [symmetric] by simp
qed

lemma pixel_latitude_zero: "pixel_latitude m 0 = 90 - 360 / pi * arctan (exp (- pi))"
  by (simp add: pixel_latitude_alt)

lemma pixel_latitude_full:
  assumes "0 < m"
  shows "pixel_latitude m m = - pixel_latitude m 0"
proof -
  define A where "A = arctan (exp (- pi))"
  have "2 * pi * m / m - pi = pi"
    using assms by simp
  then have "pixel_latitude m m = 90 - 360 / pi * arctan (exp pi)"
    by (simp only: pixel_latitude_alt)
  also have "arctan (exp pi) = pi / 2 - A"
    unfolding A_def using arctan_exp_minus [of pi] by simp
  also have "360 / pi * (pi / 2 - A) = 180 - 360 / pi * A"
    by (simp add: right_diff_distrib)
  finally show ?thesis
    unfolding pixel_latitude_zero A_def [symmetric] by simp
qed

lemma pixel_latitude_zero_lower: "MAX_LATITUDE - 180 / 2 ^ 31 \<le> pixel_latitude m 0"
proof -
  have "360 / pi * arctan (exp (- pi)) \<le> 360 / pi * (pi * (90 - 85.05112878 + 180 / 2 ^ 31) / 360)"
    using arctan_exp_pi_upper by (intro mult_left_mono) simp_all
  also have "\<dots> = 90 - 85.05112878 + 180 / 2 ^ 31"
    by simp
  finally show ?thesis
    by (simp add: pixel_latitude_zero MAX_LATITUDE_def)
qed

lemma pixel_latitude_top:
  assumes "256 \<le> m"
  shows "pixel_latitude m (m - 1) - pixel_latitude m m \<le> 180 / m"
proof -
  have m: "0 < m" using assms by simp
  have t1: "2 * pi * (m - 1) / m - pi = pi - 2 * pi / m"
    using m by (simp add: field_simps)
  have t2: "2 * pi * m / m - pi = pi"
    using m by simp
  have "2 * pi / m \<le> 2 * pi / 256"
    using assms by (intro divide_left_mono) simp_all
  moreover have "3.14159265 \<le> pi" by (rule pi_lower)
  ultimately have "3 \<le> pi - 2 * pi / m"
    by simp
  moreover have "pi - 2 * pi / m \<le> pi"
    using m by simp
  ultimately have "arctan (exp pi) - arctan (exp (pi - 2 * pi / m)) \<le> (pi - (pi - 2 * pi / m)) / 4"
    by (rule arctan_exp_slope_quarter)
  then have "arctan (exp pi) - arctan (exp (pi - 2 * pi / m)) \<le> pi / (2 * m)"
    by simp
  then have "360 / pi * (arctan (exp pi) - arctan (exp (pi - 2 * pi / m))) \<le> 360 / pi * (pi / (2 * m))"
    by (intro mult_left_mono) simp_all
  also have "\<dots> = 180 / m"
    by simp
  finally show ?thesis
    unfolding pixel_latitude_diff t1 t2 .
qed

lemma pixel_latitude_mercator:
  assumes "- 90 < lat" and "lat < 90" and "0 < m"
  shows "pixel_latitude m (mercator_y lat * m) = lat"
proof -
  let ?a = "lat * pi / 180"
  let ?R = "(1 + sin ?a) / (1 - sin ?a)"
  have "- 90 * pi < lat * pi" "lat * pi < 90 * pi"
    using assms(1,2) pi_gt_zero by (simp_all only: mult_less_cancel_right_pos)
  then have a: "- (pi / 2) < ?a" "?a < pi / 2"
    by simp_all
  have "- (0.5 - mercator_y lat * m / m) * 2 * pi = - (ln ?R / 2)"
    using assms(3) by (simp add: mercator_y_def)
  then have "pixel_latitude m (mercator_y lat * m) = 90 - 360 * arctan (exp (- (ln ?R / 2))) / pi"
    by (simp only: pixel_latitude_def)
  also have "arctan (exp (- (ln ?R / 2))) = pi / 4 - ?a / 2"
    by (rule arctan_exp_half_ln [OF a])
  also have "90 - 360 * (pi / 4 - ?a / 2) / pi = lat"
    by (simp add: field_simps)
  finally show ?thesis .
qed

subsection \<open>The two projections, and the error of the rounding step\<close>

lemma pixel_xy_to_latlong_eq:
  assumes "0 \<le> lod"
  shows "pixel_xy_to_latlong px py lod =
    Inr (pixel_latitude (256 * 2 ^ nat lod) (clip py 0 (256 * 2 ^ nat lod - 1)),
         360 * (clip px 0 (256 * 2 ^ nat lod - 1) / (256 * 2 ^ nat lod) - 0.5))"
proof -
  have ms: "real_of_int (256 * 2 ^ nat lod) = 256 * 2 ^ nat lod"
    by simp
  show ?thesis
    by (simp only: pixel_xy_to_latlong_def map_size_eq [OF assms] Let_def pixel_latitude_def
        sum.case ms)
qed

lemma latlong_to_pixel_xy_in_range:
  assumes "0 \<le> lod" and "lod \<le> 1015"
    and "MIN_LATITUDE \<le> lat" and "lat \<le> MAX_LATITUDE"
    and "- 180 \<le> lon" and "lon \<le> 180"
  shows "latlong_to_pixel_xy lat lon lod =
    Inr (clip ((lon + 180) / 360 * (256 * 2 ^ nat lod) + 0.5) 0 (256 * 2 ^ nat lod - 1),
         clip (mercator_y lat * (256 * 2 ^ nat lod) + 0.5) 0 (256 * 2 ^ nat lod - 1))"
  using assms(3-6)
  by (simp add: latlong_to_pixel_xy_eq [OF assms(1,2)] clip_id Let_def mercator_y_def)

lemma clip_idem: "lo \<le> hi \<Longrightarrow> clip (clip n lo hi) lo hi = clip n lo hi"
  by (auto simp add: clip_def)

lemma clip_above: "hi < v \<Longrightarrow> lo \<le> hi \<Longrightarrow> clip v lo hi = hi"
  by (simp add: clip_def)

lemma clip_below: "v < lo \<Longrightarrow> lo \<le> hi \<Longrightarrow> clip v lo hi = lo"
  by (simp add: clip_def)

lemma clip_half_near:
  fixes X m :: real
  assumes "0 \<le> X" and "X \<le> m" and "1 \<le> m"
  shows "\<bar>clip (X + 1 / 2) 0 (m - 1) - X\<bar> \<le> 1"
  using assms by (auto simp add: clip_def min_def max_def)

lemma clip_half_exact:
  fixes X m :: real
  assumes "1 / 2 \<le> clip (X + 1 / 2) 0 (m - 1)" and "clip (X + 1 / 2) 0 (m - 1) < m - 1"
  shows "clip (X + 1 / 2) 0 (m - 1) = X + 1 / 2 \<and> 0 \<le> X \<and> X \<le> m - 1"
  using assms by (auto simp add: clip_def min_def max_def split: if_splits)

lemma latitude_roundtrip_error:
  fixes m :: real
  assumes m: "256 \<le> m" "m \<le> 2 ^ 31"
    and lat: "MIN_LATITUDE \<le> lat" "lat \<le> MAX_LATITUDE"
  shows "\<bar>pixel_latitude m (clip (mercator_y lat * m + 1 / 2) 0 (m - 1)) - lat\<bar> \<le> 360 / m"
proof -
  let ?Y = "mercator_y lat * m"
  let ?L = "pixel_latitude m"
  have m0: "0 < m" using m by simp
  have "- 90 < lat" "lat < 90"
    using lat by (simp_all add: MIN_LATITUDE_def MAX_LATITUDE_def)
  then have inv: "?L ?Y = lat"
    using m0 by (rule pixel_latitude_mercator)
  have small: "(180 :: real) / 2 ^ 31 \<le> 180 / m"
    using m m0 by (intro divide_left_mono) simp_all
  have half: "180 / m + 180 / m = 360 / m"
    by simp
  have pos: "0 \<le> 180 / m" using m0 by simp
  have delta: "MAX_LATITUDE - ?L 0 \<le> 180 / m"
    using pixel_latitude_zero_lower [of m] small by linarith
  consider (inside) "0 \<le> ?Y + 1 / 2" "?Y + 1 / 2 \<le> m - 1"
    | (top) "m - 1 < ?Y + 1 / 2" "?Y \<le> m"
    | (over) "m < ?Y"
    | (under) "?Y + 1 / 2 < 0"
    by linarith
  then show ?thesis
  proof cases
    case inside
    then have "clip (?Y + 1 / 2) 0 (m - 1) = ?Y + 1 / 2"
      by (simp add: clip_id)
    moreover have "\<bar>?L (?Y + 1 / 2) - ?L ?Y\<bar> \<le> 360 / m * \<bar>?Y + 1 / 2 - ?Y\<bar>"
      using m0 by (rule pixel_latitude_lipschitz)
    ultimately show ?thesis
      using inv pos half by simp
  next
    case top
    have c: "clip (?Y + 1 / 2) 0 (m - 1) = m - 1"
    proof (rule clip_above)
      show "m - 1 < ?Y + 1 / 2" by (rule top(1))
      show "0 \<le> m - 1" using m by linarith
    qed
    have "\<bar>?L (m - 1) - ?L ?Y\<bar> \<le> 360 / m * \<bar>m - 1 - ?Y\<bar>"
      using m0 by (rule pixel_latitude_lipschitz)
    also have "\<dots> \<le> 360 / m * 1"
      using top m0 by (intro mult_left_mono) (simp_all add: abs_le_iff)
    finally show ?thesis
      using inv c by simp
  next
    case over
    have c: "clip (?Y + 1 / 2) 0 (m - 1) = m - 1"
    proof (rule clip_above)
      show "m - 1 < ?Y + 1 / 2" using over by linarith
      show "0 \<le> m - 1" using m by linarith
    qed
    have 1: "lat \<le> ?L m"
      using pixel_latitude_mono [OF m0, of m ?Y] over inv by simp
    have 2: "?L m \<le> ?L (m - 1)"
      using pixel_latitude_mono [OF m0, of "m - 1" m] by simp
    have 3: "?L (m - 1) - ?L m \<le> 180 / m"
      using m(1) by (rule pixel_latitude_top)
    have 4: "?L m = - ?L 0"
      using m0 by (rule pixel_latitude_full)
    have "0 \<le> ?L (m - 1) - lat" using 1 2 by linarith
    moreover have "?L (m - 1) - lat \<le> 360 / m"
      using 3 4 delta lat(1) half by (simp add: MIN_LATITUDE_def MAX_LATITUDE_def)
    ultimately show ?thesis
      unfolding c by (simp add: abs_le_iff)
  next
    case under
    have c: "clip (?Y + 1 / 2) 0 (m - 1) = 0"
    proof (rule clip_below)
      show "?Y + 1 / 2 < 0" by (rule under)
      show "0 \<le> m - 1" using m by linarith
    qed
    have "?Y \<le> 0" using under by linarith
    from pixel_latitude_mono [OF m0 this] have 1: "?L 0 \<le> lat"
      using inv by simp
    have "lat - ?L 0 \<le> 360 / m"
      using delta lat(2) pos half by linarith
    then show ?thesis
      unfolding c using 1 by (simp add: abs_le_iff)
  qed
qed

lemma longitude_roundtrip_error:
  fixes m :: real
  assumes m: "1 \<le> m" and lon: "- 180 \<le> lon" "lon \<le> 180"
  shows "\<bar>360 * (clip ((lon + 180) / 360 * m + 1 / 2) 0 (m - 1) / m - 1 / 2) - lon\<bar> \<le> 360 / m"
proof -
  let ?X = "(lon + 180) / 360 * m"
  let ?p = "clip (?X + 1 / 2) 0 (m - 1)"
  have m0: "0 < m" using m by simp
  have a: "0 \<le> (lon + 180) / 360" "(lon + 180) / 360 \<le> 1"
    using lon by simp_all
  have X: "0 \<le> ?X" "?X \<le> m"
    using mult_nonneg_nonneg [OF a(1), of m] mult_right_mono [OF a(2), of m] m0 by simp_all
  define d where "d = ?p - ?X"
  have d: "\<bar>d\<bar> \<le> 1"
    unfolding d_def by (rule clip_half_near [OF X m])
  have "360 * (?p / m - 1 / 2) - lon = 360 / m * (?p - ?X)"
    using m0 by (simp add: field_simps)
  then have "360 * (?p / m - 1 / 2) - lon = 360 / m * d"
    unfolding d_def .
  moreover have "\<bar>360 / m * d\<bar> = 360 / m * \<bar>d\<bar>"
    using m0 by (simp add: abs_mult)
  moreover have "360 / m * \<bar>d\<bar> \<le> 360 / m * 1"
    using d m0 by (intro mult_left_mono) simp_all
  ultimately show ?thesis by simp
qed

subsection \<open>Latitude and longitude through the pixel and back\<close>

text \<open>
  C8. For a latitude in \<open>[MIN_LATITUDE, MAX_LATITUDE]\<close>, a longitude in
  \<open>[MIN_LONGITUDE, MAX_LONGITUDE]\<close> and a level of detail from 0 to 23 (the documented range is
  1 to 23), \<open>latlong_to_pixel_xy\<close> followed by \<open>pixel_xy_to_latlong\<close> at the same level returns
  a latitude and a longitude each within one pixel width, \<open>360 / map_size lod\<close> degrees, of the
  input. The loss comes from the rounding step only (the half pixel added before clipping, and
  the clipping to the pixel range): when no coordinate was clipped, taking the half pixel off
  again gives back the input exactly, so the two projection formulas are exact inverses.
  Floats are idealised as reals.
\<close>

theorem latlong_pixel_roundtrip:
  assumes "0 \<le> lod" and "lod \<le> 23"
    and "MIN_LATITUDE \<le> latitude" and "latitude \<le> MAX_LATITUDE"
    and "real_of_int MIN_LONGITUDE \<le> longitude" and "longitude \<le> real_of_int MAX_LONGITUDE"
  shows "\<exists>pixel_x pixel_y lat' lon'.
    latlong_to_pixel_xy latitude longitude lod = Inr (pixel_x, pixel_y) \<and>
    pixel_xy_to_latlong pixel_x pixel_y lod = Inr (lat', lon') \<and>
    \<bar>lat' - latitude\<bar> \<le> 360 / (256 * 2 ^ nat lod) \<and>
    \<bar>lon' - longitude\<bar> \<le> 360 / (256 * 2 ^ nat lod) \<and>
    (pixel_x < 256 * 2 ^ nat lod - 1 \<and> 1 / 2 \<le> pixel_y \<and> pixel_y < 256 * 2 ^ nat lod - 1 \<longrightarrow>
       pixel_xy_to_latlong (pixel_x - 1 / 2) (pixel_y - 1 / 2) lod = Inr (latitude, longitude))"
proof -
  define m :: real where "m = 256 * 2 ^ nat lod"
  define X where "X = (longitude + 180) / 360 * m"
  define Y where "Y = mercator_y latitude * m"
  define px where "px = clip (X + 1 / 2) 0 (m - 1)"
  define py where "py = clip (Y + 1 / 2) 0 (m - 1)"
  have lon: "- 180 \<le> longitude" "longitude \<le> 180"
    using assms(5,6) by (simp_all add: MIN_LONGITUDE_def MAX_LONGITUDE_def)
  have "(1::real) \<le> 2 ^ nat lod"
    by (rule one_le_power) simp
  then have m256: "256 \<le> m"
    unfolding m_def by linarith
  have "nat lod \<le> 23"
    using assms(2) by simp
  then have "(2::real) ^ nat lod \<le> 2 ^ 23"
    by (intro power_increasing) simp_all
  then have m31: "m \<le> 2 ^ 31"
    unfolding m_def by simp
  have m0: "0 < m" and m1: "1 \<le> m" and mm: "0 \<le> m - 1"
    using m256 by simp_all
  have "lod \<le> 1015"
    using assms(2) by simp
  from latlong_to_pixel_xy_in_range [OF assms(1) this assms(3,4) lon]
  have fwd: "latlong_to_pixel_xy latitude longitude lod = Inr (px, py)"
    by (simp add: px_def py_def X_def Y_def m_def)
  have bwd: "pixel_xy_to_latlong p q lod =
      Inr (pixel_latitude m (clip q 0 (m - 1)), 360 * (clip p 0 (m - 1) / m - 1 / 2))" for p q
    using pixel_xy_to_latlong_eq [OF assms(1), of p q] by (simp add: m_def)
  have cpx: "clip px 0 (m - 1) = px" and cpy: "clip py 0 (m - 1) = py"
    unfolding px_def py_def by (rule clip_idem [OF mm])+
  have inv: "pixel_xy_to_latlong px py lod = Inr (pixel_latitude m py, 360 * (px / m - 1 / 2))"
    unfolding bwd cpx cpy by (rule refl)
  have elat: "\<bar>pixel_latitude m py - latitude\<bar> \<le> 360 / m"
    unfolding py_def Y_def by (rule latitude_roundtrip_error [OF m256 m31 assms(3,4)])
  have elon: "\<bar>360 * (px / m - 1 / 2) - longitude\<bar> \<le> 360 / m"
    unfolding px_def X_def by (rule longitude_roundtrip_error [OF m1 lon])
  have a: "0 \<le> (longitude + 180) / 360"
    using lon by simp
  have X0: "0 \<le> X"
    unfolding X_def using mult_nonneg_nonneg [OF a, of m] m0 by simp
  have exact: "pixel_xy_to_latlong (px - 1 / 2) (py - 1 / 2) lod = Inr (latitude, longitude)"
    if h: "px < m - 1" "1 / 2 \<le> py" "py < m - 1"
  proof -
    have "1 / 2 \<le> px"
      unfolding px_def using X0 m256 by (simp add: clip_def)
    with h(1) have x: "px = X + 1 / 2 \<and> 0 \<le> X \<and> X \<le> m - 1"
      unfolding px_def by (intro clip_half_exact) simp_all
    from h(2,3) have y: "py = Y + 1 / 2 \<and> 0 \<le> Y \<and> Y \<le> m - 1"
      unfolding py_def by (intro clip_half_exact) simp_all
    have "- 90 < latitude" "latitude < 90"
      using assms(3,4) by (simp_all add: MIN_LATITUDE_def MAX_LATITUDE_def)
    then have "pixel_latitude m Y = latitude"
      unfolding Y_def using m0 by (rule pixel_latitude_mercator)
    moreover have "360 * (X / m - 1 / 2) = longitude"
      unfolding X_def using m0 by (simp add: field_simps)
    ultimately show ?thesis
      using x y by (simp add: bwd clip_id)
  qed
  show ?thesis
    using fwd inv elat elon exact unfolding m_def [symmetric]
    by (intro exI [of _ px] exI [of _ py] exI [of _ "pixel_latitude m py"]
        exI [of _ "360 * (px / m - 1 / 2)"]) blast
qed

theorem latlong_pixel_roundtrip_witness:
  "latlong_to_pixel_xy 0 0 1 = Inr (256.5, 256.5) \<and>
   pixel_xy_to_latlong 256.5 256.5 1 = Inr (90 - 360 * arctan (exp (pi / 512)) / pi, 0.3515625) \<and>
   \<bar>90 - 360 * arctan (exp (pi / 512)) / pi - 0\<bar> \<le> 360 / 512 \<and>
   \<bar>0.3515625 - (0::real)\<bar> \<le> 360 / 512 \<and>
   pixel_xy_to_latlong 256 256 1 = Inr (0, 0)"
proof -
  have f: "latlong_to_pixel_xy 0 0 1 = Inr (256.5, 256.5)"
    by (simp add: latlong_to_pixel_xy_eq clip_def MIN_LATITUDE_def MAX_LATITUDE_def)
  have b: "pixel_xy_to_latlong 256.5 256.5 1 =
      Inr (90 - 360 * arctan (exp (pi / 512)) / pi, 0.3515625)"
    by (simp add: pixel_xy_to_latlong_def map_size_eq clip_def)
  have "(0::int) \<le> 1" "(1::int) \<le> 23" "MIN_LATITUDE \<le> 0" "0 \<le> MAX_LATITUDE"
    "real_of_int MIN_LONGITUDE \<le> 0" "0 \<le> real_of_int MAX_LONGITUDE"
    by (simp_all add: MIN_LATITUDE_def MAX_LATITUDE_def MIN_LONGITUDE_def MAX_LONGITUDE_def)
  from latlong_pixel_roundtrip [OF this] obtain px py lat' lon' where
    r: "latlong_to_pixel_xy 0 0 1 = Inr (px, py)"
      "pixel_xy_to_latlong px py 1 = Inr (lat', lon')"
      "\<bar>lat' - 0\<bar> \<le> 360 / (256 * 2 ^ nat 1)"
      "\<bar>lon' - 0\<bar> \<le> 360 / (256 * 2 ^ nat 1)"
      "px < 256 * 2 ^ nat 1 - 1 \<and> 1 / 2 \<le> py \<and> py < 256 * 2 ^ nat 1 - 1 \<longrightarrow>
         pixel_xy_to_latlong (px - 1 / 2) (py - 1 / 2) 1 = Inr (0, 0)"
    by blast
  from r(1) f have p: "px = 256.5" "py = 256.5"
    by simp_all
  from r(2) b have l: "lat' = 90 - 360 * arctan (exp (pi / 512)) / pi" "lon' = 0.3515625"
    unfolding p by simp_all
  have e: "pixel_xy_to_latlong 256 256 1 = Inr (0, 0)"
    using r(5) unfolding p by simp
  show ?thesis
    using f b e r(3,4) unfolding l by simp
qed

end
